theory Spec2Isabelle
  imports Main
begin

section \<open>The pushdown-automaton simulator of TOC.py\<close>

text \<open>
  The class \<^verbatim>\<open>PDASimulator\<close> holds seven attributes that describe the automaton
  and three that change while it runs (\<^verbatim>\<open>current_state\<close>, \<^verbatim>\<open>stack\<close>,
  \<^verbatim>\<open>log\<close>). States and symbols are Python strings. The stack is a Python list
  whose index 0 is the top. A key of the transition dictionary is a triple whose third
  component is what \<^verbatim>\<open>step\<close> peeks: a stack symbol, or \<^verbatim>\<open>None\<close> when the
  stack is empty.
\<close>

subsection \<open>Data\<close>

datatype py_error = IndexError

text \<open>
  A log entry is a dictionary with the five keys \<^verbatim>\<open>Input\<close>, \<^verbatim>\<open>Action\<close>,
  \<^verbatim>\<open>New State\<close>, \<^verbatim>\<open>Stack\<close> and \<^verbatim>\<open>Result\<close>. Three of the values are
  f-strings that contain characters outside ASCII; they are kept here as the data the
  f-string is built from:
  \<^item> \<^verbatim>\<open>Input\<close>: \<open>Start_input\<close> is the text "epsilon (start)", \<open>Symbol_input s\<close> is
    the symbol between single quotes;
  \<^item> \<^verbatim>\<open>Action\<close>: \<open>Initial_configuration\<close> is "Initial configuration",
    \<open>Input_not_in_alphabet\<close> is "ERROR: Input not in alphabet.", \<open>Pop_Push x ys\<close> is
    "Pop 'x'. Push 'ys'. " (the pushed symbols joined, or epsilon when there are none),
    \<open>No_transition q a t\<close> is "No transition for (q, a, t)";
  \<^item> \<^verbatim>\<open>Result\<close>: the words "Start", "Success", "Stuck", "Halted", each followed by
    an emoji in the source.
\<close>

datatype log_input = Start_input | Symbol_input string

datatype log_action =
    Initial_configuration
  | Input_not_in_alphabet
  | Pop_Push string "string list"
  | No_transition string string "string option"

datatype log_result = Start | Success | Stuck | Halted

record log_entry =
  Input :: log_input
  Action :: log_action
  New_State :: string
  Stack :: string
  Result :: log_result

record PDASimulator =
  states :: "string set"
  input_alphabet :: "string set"
  stack_alphabet :: "string set"
  transitions :: "(string \<times> string \<times> string option) \<rightharpoonup> (string \<times> string list)"
  start_state :: string
  start_stack_symbol :: string
  accept_states :: "string set"
  current_state :: string
  stack :: "string list"
  log :: "log_entry list"

subsection \<open>List operations of Python used by the class\<close>

text \<open>\<^verbatim>\<open>sep.join(xs)\<close>\<close>

fun join :: "string \<Rightarrow> string list \<Rightarrow> string" where
  "join sep [] = []"
| "join sep [x] = x"
| "join sep (x # y # ys) = x @ sep @ join sep (y # ys)"

text \<open>\<^verbatim>\<open>xs.pop(0)\<close>: the removed element and the remaining list; IndexError on an empty list.\<close>

definition pop0 :: "'a list \<Rightarrow> py_error + ('a \<times> 'a list)" where
  "pop0 xs = (case xs of [] \<Rightarrow> Inl IndexError | x # rest \<Rightarrow> Inr (x, rest))"

text \<open>\<^verbatim>\<open>xs.insert(0, item)\<close>\<close>

definition insert0 :: "'a \<Rightarrow> 'a list \<Rightarrow> 'a list" where
  "insert0 item xs = item # xs"

text \<open>\<^verbatim>\<open>for item in reversed(push_symbols): stack.insert(0, item)\<close>\<close>

definition push_reversed :: "'a list \<Rightarrow> 'a list \<Rightarrow> 'a list" where
  "push_reversed push_symbols stk = foldl (\<lambda>s item. insert0 item s) stk (rev push_symbols)"

text \<open>\<^verbatim>\<open>xs[0] if xs else None\<close>\<close>

definition peek :: "'a list \<Rightarrow> 'a option" where
  "peek xs = (case xs of [] \<Rightarrow> None | t # _ \<Rightarrow> Some t)"

subsection \<open>Methods\<close>

definition reset :: "PDASimulator \<Rightarrow> PDASimulator" where
  "reset p = p\<lparr>current_state := start_state p, stack := [start_stack_symbol p], log := []\<rparr>"

text \<open>
  \<^verbatim>\<open>__init__\<close> stores its seven arguments and calls \<^verbatim>\<open>reset\<close>. It checks nothing and
  raises nothing. The three run attributes do not exist before \<^verbatim>\<open>reset\<close> assigns them;
  the values given to them in the record below are the ones \<^verbatim>\<open>reset\<close> overwrites.
\<close>

definition PDASimulator_init ::
  "string set \<Rightarrow> string set \<Rightarrow> string set
   \<Rightarrow> ((string \<times> string \<times> string option) \<rightharpoonup> (string \<times> string list))
   \<Rightarrow> string \<Rightarrow> string \<Rightarrow> string set \<Rightarrow> py_error + PDASimulator" where
  "PDASimulator_init sts ia sa tr ss sss acc =
     Inr (reset \<lparr>states = sts, input_alphabet = ia, stack_alphabet = sa, transitions = tr,
                 start_state = ss, start_stack_symbol = sss, accept_states = acc,
                 current_state = ss, stack = [], log = []\<rparr>)"

definition get_stack_visualization :: "PDASimulator \<Rightarrow> string" where
  "get_stack_visualization p =
     (if stack p = [] then ''[] (Empty)'' else ''['' @ join '' | '' (stack p) @ '']'')"

definition log_append :: "log_entry \<Rightarrow> PDASimulator \<Rightarrow> PDASimulator" where
  "log_append e p = p\<lparr>log := log p @ [e]\<rparr>"

text \<open>
  \<^verbatim>\<open>step\<close> returns the simulator as the call leaves it, and either the Boolean it
  returns or the exception it raises. The only statement that can raise is
  \<^verbatim>\<open>self.stack.pop(0)\<close>, reached when the key is in the dictionary; it runs before
  anything is changed.
\<close>

definition step :: "PDASimulator \<Rightarrow> string \<Rightarrow> PDASimulator \<times> (py_error + bool)" where
  "step p symbol =
     (if symbol \<notin> input_alphabet p then
        (log_append \<lparr>Input = Symbol_input symbol, Action = Input_not_in_alphabet,
                     New_State = current_state p, Stack = get_stack_visualization p,
                     Result = Halted\<rparr> p,
         Inr False)
      else
        let stack_top = peek (stack p);
            key = (current_state p, symbol, stack_top)
        in case transitions p key of
             Some (next_state, push_symbols) \<Rightarrow>
               (case pop0 (stack p) of
                  Inl e \<Rightarrow> (p, Inl e)
                | Inr (popped_symbol, rest) \<Rightarrow>
                    let p1 = p\<lparr>stack := (if push_symbols \<noteq> [] then push_reversed push_symbols rest
                                           else rest)\<rparr>;
                        p2 = log_append \<lparr>Input = Symbol_input symbol,
                                         Action = Pop_Push popped_symbol push_symbols,
                                         New_State = next_state,
                                         Stack = get_stack_visualization p1,
                                         Result = Success\<rparr> p1
                    in (p2\<lparr>current_state := next_state\<rparr>, Inr True))
           | None \<Rightarrow>
               (log_append \<lparr>Input = Symbol_input symbol,
                            Action = No_transition (current_state p) symbol stack_top,
                            New_State = current_state p, Stack = get_stack_visualization p,
                            Result = Stuck\<rparr> p,
                Inr False))"

text \<open>The \<^verbatim>\<open>for\<close> loop of \<^verbatim>\<open>run\<close> and the acceptance test after it.\<close>

fun run_loop :: "PDASimulator \<Rightarrow> string list \<Rightarrow> PDASimulator \<times> (py_error + string)" where
  "run_loop p [] =
     (p, Inr (if current_state p \<in> accept_states p then ''Accepted'' else ''Rejected''))"
| "run_loop p (symbol # rest) =
     (case step p symbol of
        (p', Inl e) \<Rightarrow> (p', Inl e)
      | (p', Inr ok) \<Rightarrow> if \<not> ok then (p', Inr ''Rejected'') else run_loop p' rest)"

text \<open>The simulator as \<^verbatim>\<open>run\<close> has it when the loop starts: reset, with the Start entry logged.\<close>

definition run_start :: "PDASimulator \<Rightarrow> PDASimulator" where
  "run_start p =
     (let p0 = reset p
      in log_append \<lparr>Input = Start_input, Action = Initial_configuration,
                      New_State = current_state p0, Stack = get_stack_visualization p0,
                      Result = Start\<rparr> p0)"

definition run :: "PDASimulator \<Rightarrow> string list \<Rightarrow> PDASimulator \<times> (py_error + string)" where
  "run p sequence = run_loop (run_start p) sequence"

subsection \<open>The pizza-ordering configuration\<close>

definition pizza_transitions ::
  "(string \<times> string \<times> string option) \<rightharpoonup> (string \<times> string list)" where
  "pizza_transitions = map_of
     [((''q_start'', ''order'', Some ''Z0''), (''q_ordering'', [''O'', ''Z0''])),
      ((''q_ordering'', ''pizza'', Some ''O''), (''q_ordering'', [''P'', ''O''])),
      ((''q_ordering'', ''toppings'', Some ''P''), (''q_ordering'', [''T'', ''P''])),
      ((''q_ordering'', ''done'', Some ''T''), (''q_ordering'', [])),
      ((''q_ordering'', ''done'', Some ''P''), (''q_ordering'', [])),
      ((''q_ordering'', ''pay'', Some ''O''), (''q_done'', []))]"

definition pizza_bot :: PDASimulator where
  "pizza_bot = reset
     \<lparr>states = {''q_start'', ''q_ordering'', ''q_done''},
      input_alphabet = {''order'', ''pizza'', ''toppings'', ''done'', ''pay''},
      stack_alphabet = {''O'', ''P'', ''T'', ''Z0''},
      transitions = pizza_transitions,
      start_state = ''q_start'',
      start_stack_symbol = ''Z0'',
      accept_states = {''q_done''},
      current_state = ''q_start'', stack = [], log = []\<rparr>"

subsection \<open>Notions used to state the properties\<close>

text \<open>Two simulators built from the same seven constructor arguments.\<close>

definition same_definition :: "PDASimulator \<Rightarrow> PDASimulator \<Rightarrow> bool" where
  "same_definition p q \<longleftrightarrow>
     states p = states q \<and> input_alphabet p = input_alphabet q \<and>
     stack_alphabet p = stack_alphabet q \<and> transitions p = transitions q \<and>
     start_state p = start_state q \<and> start_stack_symbol p = start_stack_symbol q \<and>
     accept_states p = accept_states q"

text \<open>No key of the transition dictionary has \<^verbatim>\<open>None\<close> as its stack-top component.\<close>

definition no_absent_key :: "PDASimulator \<Rightarrow> bool" where
  "no_absent_key p \<longleftrightarrow> (\<forall>st a. transitions p (st, a, None) = None)"

text \<open>
  \<open>applies_all p xs q\<close>: feeding the symbols \<open>xs\<close> to \<^verbatim>\<open>step\<close> one after the other,
  starting from \<open>p\<close>, every call applies a transition (returns \<^verbatim>\<open>True\<close>) and the
  last one leaves the simulator as \<open>q\<close>.
\<close>

inductive applies_all :: "PDASimulator \<Rightarrow> string list \<Rightarrow> PDASimulator \<Rightarrow> bool" where
  applies_none: "applies_all p [] p"
| applies_more: "step p symbol = (p', Inr True) \<Longrightarrow> applies_all p' rest q
                 \<Longrightarrow> applies_all p (symbol # rest) q"

code_pred applies_all .

text \<open>
  \<open>reachable p q\<close>: \<open>q\<close> is the simulator at some point of a run of \<open>p\<close>: when the
  loop of \<^verbatim>\<open>run\<close> starts, or after a further call of \<^verbatim>\<open>step\<close>.
\<close>

inductive reachable :: "PDASimulator \<Rightarrow> PDASimulator \<Rightarrow> bool" for p where
  reach_start: "reachable p (run_start p)"
| reach_step: "reachable p q \<Longrightarrow> step q symbol = (q', r) \<Longrightarrow> reachable p q'"

text \<open>
  The five pairs of current state and stack that the pizza simulator can be in.
\<close>

definition pizza_configurations :: "(string \<times> string list) set" where
  "pizza_configurations =
     {(''q_start'', [''Z0'']),
      (''q_ordering'', [''O'', ''Z0'']),
      (''q_ordering'', [''P'', ''O'', ''Z0'']),
      (''q_ordering'', [''T'', ''P'', ''O'', ''Z0'']),
      (''q_done'', [''Z0''])}"

text \<open>
  A simulator with a transition keyed on the empty stack, used as a test input: its first
  transition pops the start symbol and pushes nothing.
\<close>

definition absent_key_pda :: PDASimulator where
  "absent_key_pda = reset
     \<lparr>states = {''q''},
      input_alphabet = {''a''},
      stack_alphabet = {''Z''},
      transitions = map_of [((''q'', ''a'', Some ''Z''), (''q'', [])),
                            ((''q'', ''a'', None), (''q'', []))],
      start_state = ''q'',
      start_stack_symbol = ''Z'',
      accept_states = {''q''},
      current_state = ''q'', stack = [], log = []\<rparr>"


section \<open>Properties\<close>

subsection \<open>The branches of step\<close>

lemma push_reversed_append: "push_reversed xs stk = xs @ stk"
  unfolding push_reversed_def insert0_def
  by (induction xs arbitrary: stk rule: rev_induct) simp_all

lemma step_invalid:
  "symbol \<notin> input_alphabet p \<Longrightarrow>
   step p symbol =
     (p\<lparr>log := log p @ [\<lparr>Input = Symbol_input symbol, Action = Input_not_in_alphabet,
                            New_State = current_state p, Stack = get_stack_visualization p,
                            Result = Halted\<rparr>]\<rparr>, Inr False)"
  by (simp add: step_def log_append_def)

lemma step_stuck:
  "symbol \<in> input_alphabet p \<Longrightarrow>
   transitions p (current_state p, symbol, peek (stack p)) = None \<Longrightarrow>
   step p symbol =
     (p\<lparr>log := log p @ [\<lparr>Input = Symbol_input symbol,
                            Action = No_transition (current_state p) symbol (peek (stack p)),
                            New_State = current_state p, Stack = get_stack_visualization p,
                            Result = Stuck\<rparr>]\<rparr>, Inr False)"
  by (simp add: step_def log_append_def)

lemma step_applied:
  "symbol \<in> input_alphabet p \<Longrightarrow> stack p = tp # rest \<Longrightarrow>
   transitions p (current_state p, symbol, Some tp) = Some (next_state, push_symbols) \<Longrightarrow>
   step p symbol =
     (p\<lparr>stack := push_symbols @ rest,
        log := log p @ [\<lparr>Input = Symbol_input symbol,
                           Action = Pop_Push tp push_symbols,
                           New_State = next_state,
                           Stack = get_stack_visualization (p\<lparr>stack := push_symbols @ rest\<rparr>),
                           Result = Success\<rparr>],
        current_state := next_state\<rparr>, Inr True)"
  by (simp add: step_def log_append_def peek_def pop0_def push_reversed_append Let_def)

lemma step_raises:
  "symbol \<in> input_alphabet p \<Longrightarrow> stack p = [] \<Longrightarrow>
   transitions p (current_state p, symbol, None) = Some v \<Longrightarrow>
   step p symbol = (p, Inl IndexError)"
  by (cases v) (simp add: step_def peek_def pop0_def)

text \<open>The four cases above are all there are.\<close>

lemma step_cases:
  obtains (invalid) "symbol \<notin> input_alphabet p"
  | (stuck) "symbol \<in> input_alphabet p" "transitions p (current_state p, symbol, peek (stack p)) = None"
  | (applied) tp rest next_state push_symbols where "symbol \<in> input_alphabet p" "stack p = tp # rest"
      "transitions p (current_state p, symbol, Some tp) = Some (next_state, push_symbols)"
  | (raises) v where "symbol \<in> input_alphabet p" "stack p = []"
      "transitions p (current_state p, symbol, None) = Some v"
proof (cases "symbol \<in> input_alphabet p")
  case False then show ?thesis by (rule invalid)
next
  case inalpha: True
  show ?thesis
  proof (cases "transitions p (current_state p, symbol, peek (stack p))")
    case None with inalpha show ?thesis by (rule stuck)
  next
    case (Some v)
    show ?thesis
    proof (cases "stack p")
      case Nil
      with Some inalpha show ?thesis by (auto simp: peek_def intro: raises)
    next
      case (Cons tp rest)
      with Some inalpha show ?thesis by (cases v) (auto simp: peek_def intro: applied)
    qed
  qed
qed

lemma step_shape:
  "\<exists>c k l. fst (step p symbol) = p\<lparr>current_state := c, stack := k, log := l\<rparr>"
proof (cases rule: step_cases[of symbol p])
  case invalid
  have "fst (step p symbol) = p\<lparr>current_state := current_state p, stack := stack p,
          log := log (fst (step p symbol))\<rparr>"
    by (simp add: step_invalid[OF invalid])
  then show ?thesis by blast
next
  case stuck
  have "fst (step p symbol) = p\<lparr>current_state := current_state p, stack := stack p,
          log := log (fst (step p symbol))\<rparr>"
    by (simp add: step_stuck[OF stuck])
  then show ?thesis by blast
next
  case (applied tp rest next_state push_symbols)
  have "fst (step p symbol) = p\<lparr>current_state := next_state, stack := push_symbols @ rest,
          log := log (fst (step p symbol))\<rparr>"
    by (simp add: step_applied[OF applied])
  then show ?thesis by blast
next
  case (raises v)
  have "fst (step p symbol) = p\<lparr>current_state := current_state p, stack := stack p,
          log := log p\<rparr>"
    by (simp add: step_raises[OF raises])
  then show ?thesis by blast
qed

lemma same_definition_refl: "same_definition p p"
  by (simp add: same_definition_def)

lemma same_definition_update:
  "same_definition p (p\<lparr>current_state := c, stack := k, log := l\<rparr>)"
  by (simp add: same_definition_def)

lemma same_definition_trans:
  "same_definition p q \<Longrightarrow> same_definition q r \<Longrightarrow> same_definition p r"
  by (simp add: same_definition_def)

lemma same_definition_sym: "same_definition p q \<Longrightarrow> same_definition q p"
  by (simp add: same_definition_def)

lemma step_same_definition: "same_definition p (fst (step p symbol))"
  using step_shape[of p symbol] by (auto simp: same_definition_def)

lemma run_loop_same_definition: "same_definition p (fst (run_loop p sequence))"
proof (induction sequence arbitrary: p)
  case Nil
  show ?case by (simp add: same_definition_refl)
next
  case (Cons symbol rest)
  obtain p' r where st: "step p symbol = (p', r)" by (cases "step p symbol")
  have sd: "same_definition p p'" using step_same_definition[of p symbol] st by simp
  show ?case
  proof (cases r)
    case (Inl e)
    with st sd show ?thesis by simp
  next
    case (Inr ok)
    show ?thesis
    proof (cases ok)
      case True
      with st Inr have "run_loop p (symbol # rest) = run_loop p' rest" by simp
      with Cons.IH[of p'] sd show ?thesis by (auto intro: same_definition_trans)
    next
      case False
      with st Inr sd show ?thesis by simp
    qed
  qed
qed

lemma run_start_same_definition: "same_definition p (run_start p)"
  by (simp add: run_start_def reset_def log_append_def same_definition_def Let_def)

lemma run_same_definition: "same_definition p (fst (run p sequence))"
  unfolding run_def
  using run_start_same_definition run_loop_same_definition by (blast intro: same_definition_trans)

lemma run_start_cong: "same_definition p q \<Longrightarrow> run_start p = run_start q"
  by (simp add: run_start_def reset_def log_append_def same_definition_def Let_def
        get_stack_visualization_def)


lemmas pizza_defs = pizza_bot_def pizza_transitions_def reset_def run_start_def log_append_def
  get_stack_visualization_def Let_def

lemma pizza_no_absent_key: "no_absent_key pizza_bot"
  by (simp add: no_absent_key_def pizza_defs)

lemma step_invalid_entry:
  assumes "symbol \<notin> input_alphabet p"
  shows "\<exists>e. fst (step p symbol) = p\<lparr>log := log p @ [e]\<rparr> \<and> Result e = Halted"
proof -
  let ?e = "\<lparr>Input = Symbol_input symbol, Action = Input_not_in_alphabet,
             New_State = current_state p, Stack = get_stack_visualization p, Result = Halted\<rparr>"
  have "fst (step p symbol) = p\<lparr>log := log p @ [?e]\<rparr>"
    using assms by (simp add: step_invalid)
  moreover have "Result ?e = Halted" by simp
  ultimately show ?thesis by blast
qed

lemma step_stuck_entry:
  assumes "symbol \<in> input_alphabet p"
    and "transitions p (current_state p, symbol, peek (stack p)) = None"
  shows "\<exists>e. fst (step p symbol) = p\<lparr>log := log p @ [e]\<rparr> \<and> Result e = Stuck"
proof -
  let ?e = "\<lparr>Input = Symbol_input symbol,
             Action = No_transition (current_state p) symbol (peek (stack p)),
             New_State = current_state p, Stack = get_stack_visualization p, Result = Stuck\<rparr>"
  have "fst (step p symbol) = p\<lparr>log := log p @ [?e]\<rparr>"
    using assms by (simp add: step_stuck)
  moreover have "Result ?e = Stuck" by simp
  ultimately show ?thesis by blast
qed

subsection \<open>The loop of run\<close>

lemma step_returns_appends:
  assumes "snd (step p symbol) = Inr b"
  shows "\<exists>e. log (fst (step p symbol)) = log p @ [e] \<and> Input e = Symbol_input symbol \<and>
             Result e \<noteq> Start"
proof (cases rule: step_cases[of symbol p])
  case invalid
  then show ?thesis by (simp add: step_invalid)
next
  case stuck
  then show ?thesis by (simp add: step_stuck)
next
  case (applied tp rest next_state push_symbols)
  then show ?thesis by (simp add: step_applied)
next
  case (raises v)
  with assms show ?thesis by (simp add: step_raises)
qed

lemma step_no_raise:
  assumes "no_absent_key p"
  shows "\<exists>b. snd (step p symbol) = Inr b"
proof (cases rule: step_cases[of symbol p])
  case invalid
  then show ?thesis by (auto simp: step_invalid)
next
  case stuck
  then show ?thesis by (auto simp: step_stuck)
next
  case (applied tp rest next_state push_symbols)
  then show ?thesis by (auto simp: step_applied)
next
  case (raises v)
  with assms show ?thesis by (simp add: no_absent_key_def)
qed

lemma no_absent_key_cong: "same_definition p q \<Longrightarrow> no_absent_key p \<Longrightarrow> no_absent_key q"
  by (simp add: same_definition_def no_absent_key_def)

lemma applies_all_functional:
  "applies_all p xs q \<Longrightarrow> applies_all p xs q' \<Longrightarrow> q = q'"
proof (induction arbitrary: q' rule: applies_all.induct)
  case (applies_none p)
  then show ?case by (auto elim: applies_all.cases)
next
  case (applies_more p symbol p' rest q)
  from applies_more.prems applies_more.hyps(1) have "applies_all p' rest q'"
    by (auto elim: applies_all.cases)
  with applies_more.IH show ?case by simp
qed

lemma applies_all_same_definition: "applies_all p xs q \<Longrightarrow> same_definition p q"
proof (induction rule: applies_all.induct)
  case (applies_none p)
  show ?case by (rule same_definition_refl)
next
  case (applies_more p symbol p' rest q)
  from applies_more.hyps(1) step_same_definition[of p symbol] have "same_definition p p'" by simp
  from this applies_more.IH show ?case by (rule same_definition_trans)
qed

lemma applies_all_log:
  "applies_all p xs q \<Longrightarrow> map Input (log q) = map Input (log p) @ map Symbol_input xs"
proof (induction rule: applies_all.induct)
  case (applies_none p)
  show ?case by simp
next
  case (applies_more p symbol p' rest q)
  from applies_more.hyps(1) have "snd (step p symbol) = Inr True" "fst (step p symbol) = p'"
    by simp_all
  with step_returns_appends[of p symbol True]
  have "map Input (log p') = map Input (log p) @ [Symbol_input symbol]" by auto
  with applies_more.IH show ?case by simp
qed

lemma applies_all_reachable: "applies_all p xs q \<Longrightarrow> reachable r p \<Longrightarrow> reachable r q"
proof (induction rule: applies_all.induct)
  case (applies_none p)
  then show ?case by simp
next
  case (applies_more p symbol p' rest q)
  from applies_more.prems applies_more.hyps(1) have "reachable r p'" by (rule reach_step)
  then show ?case by (rule applies_more.IH)
qed

lemma run_loop_applies_all:
  "applies_all p xs q \<Longrightarrow> run_loop p (xs @ ys) = run_loop q ys"
  by (induction rule: applies_all.induct) simp_all

lemma run_loop_accepted:
  "snd (run_loop p xs) = Inr ''Accepted'' \<Longrightarrow>
   applies_all p xs (fst (run_loop p xs)) \<and>
   current_state (fst (run_loop p xs)) \<in> accept_states (fst (run_loop p xs))"
proof (induction xs arbitrary: p)
  case Nil
  then show ?case by (simp add: applies_none split: if_splits)
next
  case (Cons symbol rest)
  obtain p' r where st: "step p symbol = (p', r)" by (cases "step p symbol")
  show ?case
  proof (cases r)
    case (Inl e)
    with st Cons.prems show ?thesis by simp
  next
    case (Inr ok)
    show ?thesis
    proof (cases ok)
      case False
      with st Inr Cons.prems show ?thesis by simp
    next
      case True
      with st Inr have eq: "run_loop p (symbol # rest) = run_loop p' rest" by simp
      with Cons.prems have "snd (run_loop p' rest) = Inr ''Accepted''" by simp
      from Cons.IH[OF this] st Inr True eq show ?thesis
        by (auto intro: applies_more)
    qed
  qed
qed

lemma run_loop_halts:
  "snd (step p symbol) = Inr False \<Longrightarrow>
   run_loop p (symbol # rest) = (fst (step p symbol), Inr ''Rejected'')"
  by (cases "step p symbol") simp

lemma run_loop_verdict:
  "no_absent_key p \<Longrightarrow>
   snd (run_loop p xs) = Inr ''Accepted'' \<or> snd (run_loop p xs) = Inr ''Rejected''"
proof (induction xs arbitrary: p)
  case Nil
  show ?case by simp
next
  case (Cons symbol rest)
  obtain p' r where st: "step p symbol = (p', r)" by (cases "step p symbol")
  from step_no_raise[OF Cons.prems, of symbol] st obtain ok where r: "r = Inr ok" by auto
  from step_same_definition[of p symbol] st have "same_definition p p'" by simp
  from this Cons.prems have "no_absent_key p'" by (rule no_absent_key_cong)
  from Cons.IH[OF this] st r show ?case by (cases ok) simp_all
qed

lemma run_start_log:
  "log (run_start p) =
     [\<lparr>Input = Start_input, Action = Initial_configuration, New_State = start_state p,
       Stack = ''['' @ start_stack_symbol p @ '']'', Result = Start\<rparr>]"
  by (simp add: run_start_def reset_def log_append_def get_stack_visualization_def Let_def)

lemma run_start_config:
  "current_state (run_start p) = start_state p" "stack (run_start p) = [start_stack_symbol p]"
  by (simp_all add: run_start_def reset_def log_append_def Let_def)

subsection \<open>Applying a transition\<close>

text \<open>
  Claim C2. When the stack is not empty, the symbol is in the input alphabet and the
  dictionary has an entry \<open>(next_state, push_seq)\<close> for the current state, the symbol
  and the top of the stack, \<^verbatim>\<open>step\<close> returns \<^verbatim>\<open>True\<close>, removes the top and nothing
  else, puts \<open>push_seq\<close> in front of what is left, so that the stack reads
  \<open>push_seq[0]\<close>, \<open>push_seq[1]\<close>, ... from the top (an empty \<open>push_seq\<close> leaves the
  popped stack), logs the top as the popped symbol, and sets the current state to
  \<open>next_state\<close>.
\<close>

theorem step_applies_transition:
  assumes "stack p = tp # rest"
    and "symbol \<in> input_alphabet p"
    and "transitions p (current_state p, symbol, Some tp) = Some (next_state, push_seq)"
  shows "snd (step p symbol) = Inr True \<and>
         stack (fst (step p symbol)) = push_seq @ rest \<and>
         (\<forall>i<length push_seq. stack (fst (step p symbol)) ! i = push_seq ! i) \<and>
         (push_seq = [] \<longrightarrow> stack (fst (step p symbol)) = rest) \<and>
         length (stack (fst (step p symbol))) + 1 = length (stack p) + length push_seq \<and>
         Action (last (log (fst (step p symbol)))) = Pop_Push tp push_seq \<and>
         current_state (fst (step p symbol)) = next_state"
  using assms by (simp add: step_applied nth_append)

theorem step_applies_transition_witness:
  "stack (run_start pizza_bot) = ''Z0'' # [] \<and>
   ''order'' \<in> input_alphabet (run_start pizza_bot) \<and>
   transitions (run_start pizza_bot) (current_state (run_start pizza_bot), ''order'', Some ''Z0'')
     = Some (''q_ordering'', [''O'', ''Z0'']) \<and>
   snd (step (run_start pizza_bot) ''order'') = Inr True \<and>
   stack (fst (step (run_start pizza_bot) ''order'')) = [''O'', ''Z0''] \<and>
   current_state (fst (step (run_start pizza_bot) ''order'')) = ''q_ordering''"
proof -
  have h1: "stack (run_start pizza_bot) = ''Z0'' # []" by (simp add: pizza_defs)
  have h2: "''order'' \<in> input_alphabet (run_start pizza_bot)" by (simp add: pizza_defs)
  have h3: "transitions (run_start pizza_bot)
              (current_state (run_start pizza_bot), ''order'', Some ''Z0'')
            = Some (''q_ordering'', [''O'', ''Z0''])" by (simp add: pizza_defs)
  from step_applies_transition[OF h1 h2 h3] h1 h2 h3 show ?thesis by simp
qed

subsection \<open>The two halting branches\<close>

text \<open>
  Claim C3. When the symbol is not in the input alphabet, or the dictionary has no entry
  for the current state, the symbol and the peeked top of the stack, \<^verbatim>\<open>step\<close> returns
  \<^verbatim>\<open>False\<close> and leaves the current state and the stack as they were: the simulator
  changes only by one log entry, tagged Halted in the first case and Stuck in the second.
\<close>

theorem step_halt_frame:
  assumes "symbol \<notin> input_alphabet p \<or>
           transitions p (current_state p, symbol, peek (stack p)) = None"
  shows "snd (step p symbol) = Inr False \<and>
         current_state (fst (step p symbol)) = current_state p \<and>
         stack (fst (step p symbol)) = stack p \<and>
         (\<exists>e. fst (step p symbol) = p\<lparr>log := log p @ [e]\<rparr> \<and>
              Result e = (if symbol \<notin> input_alphabet p then Halted else Stuck))"
proof (cases "symbol \<in> input_alphabet p")
  case False
  with step_invalid_entry[OF False] show ?thesis by (simp add: step_invalid)
next
  case True
  with assms have none: "transitions p (current_state p, symbol, peek (stack p)) = None" by simp
  with step_stuck_entry[OF True none] True show ?thesis by (simp add: step_stuck)
qed

theorem step_halt_frame_witness:
  "(''anchovies'' \<notin> input_alphabet (run_start pizza_bot) \<and>
    snd (step (run_start pizza_bot) ''anchovies'') = Inr False \<and>
    current_state (fst (step (run_start pizza_bot) ''anchovies'')) = ''q_start'' \<and>
    stack (fst (step (run_start pizza_bot) ''anchovies'')) = [''Z0'']) \<and>
   (''pizza'' \<in> input_alphabet (run_start pizza_bot) \<and>
    transitions (run_start pizza_bot)
      (current_state (run_start pizza_bot), ''pizza'', peek (stack (run_start pizza_bot))) = None \<and>
    snd (step (run_start pizza_bot) ''pizza'') = Inr False \<and>
    current_state (fst (step (run_start pizza_bot) ''pizza'')) = ''q_start'' \<and>
    stack (fst (step (run_start pizza_bot) ''pizza'')) = [''Z0''])"
proof -
  have h1: "''anchovies'' \<notin> input_alphabet (run_start pizza_bot)" by (simp add: pizza_defs)
  have h2: "transitions (run_start pizza_bot)
      (current_state (run_start pizza_bot), ''pizza'', peek (stack (run_start pizza_bot))) = None"
    by (simp add: pizza_defs peek_def)
  have h3: "''pizza'' \<in> input_alphabet (run_start pizza_bot)" by (simp add: pizza_defs)
  have c: "current_state (run_start pizza_bot) = ''q_start''" "stack (run_start pizza_bot) = [''Z0'']"
    by (simp_all add: pizza_defs)
  from step_halt_frame[of "''anchovies''" "run_start pizza_bot"] h1
       step_halt_frame[of "''pizza''" "run_start pizza_bot"] h2 h3 c
  show ?thesis by simp
qed

subsection \<open>The constructor\<close>

text \<open>
  Claim C5, as the code has it. The constructor checks nothing: for all seven arguments
  it returns a simulator that holds them as given, with the current state the start
  state, the stack holding the start stack symbol only, and an empty log.
\<close>

theorem init_never_fails:
  "PDASimulator_init sts ia sa tr ss sss acc =
     Inr \<lparr>states = sts, input_alphabet = ia, stack_alphabet = sa, transitions = tr,
          start_state = ss, start_stack_symbol = sss, accept_states = acc,
          current_state = ss, stack = [sss], log = []\<rparr>"
  by (simp add: PDASimulator_init_def reset_def)

text \<open>
  The constructor succeeds on arguments in which the start state, the start stack symbol,
  the accept state and every state and symbol of the one transition are outside the
  declared sets.
\<close>

theorem init_unvalidated_counterexample:
  "PDASimulator_init {''q''} {''a''} {''Z''}
     (map_of [((''r'', ''b'', Some ''Y''), (''s'', [''X'']))]) ''nowhere'' ''W'' {''t''}
   = Inr \<lparr>states = {''q''}, input_alphabet = {''a''}, stack_alphabet = {''Z''},
          transitions = map_of [((''r'', ''b'', Some ''Y''), (''s'', [''X'']))],
          start_state = ''nowhere'', start_stack_symbol = ''W'', accept_states = {''t''},
          current_state = ''nowhere'', stack = [''W''], log = []\<rparr>"
  by (simp add: PDASimulator_init_def reset_def)

subsection \<open>A step on an empty stack\<close>

text \<open>
  Claim C10, as the code has it. With an empty stack the peek gives \<^verbatim>\<open>None\<close>. When no
  key of the dictionary has \<^verbatim>\<open>None\<close> as its stack-top component, a step on an empty
  stack raises nothing and pops nothing: it returns \<^verbatim>\<open>False\<close>, the stack stays empty,
  the state stays, and one log entry is added, tagged Stuck when the symbol is in the
  input alphabet and Halted when it is not.
\<close>

theorem step_on_empty_stack:
  assumes "no_absent_key p" and "stack p = []"
  shows "peek (stack p) = None \<and>
         snd (step p symbol) = Inr False \<and>
         stack (fst (step p symbol)) = [] \<and>
         current_state (fst (step p symbol)) = current_state p \<and>
         (\<exists>e. fst (step p symbol) = p\<lparr>log := log p @ [e]\<rparr> \<and>
              Result e = (if symbol \<in> input_alphabet p then Stuck else Halted))"
proof (cases "symbol \<in> input_alphabet p")
  case False
  with step_invalid_entry[OF False] assms show ?thesis by (simp add: step_invalid peek_def)
next
  case True
  from assms have none: "transitions p (current_state p, symbol, peek (stack p)) = None"
    by (simp add: no_absent_key_def peek_def)
  with step_stuck_entry[OF True none] True assms show ?thesis by (simp add: step_stuck peek_def)
qed

theorem step_on_empty_stack_witness:
  "no_absent_key (pizza_bot\<lparr>stack := []\<rparr>) \<and> stack (pizza_bot\<lparr>stack := []\<rparr>) = [] \<and>
   snd (step (pizza_bot\<lparr>stack := []\<rparr>) ''pay'') = Inr False \<and>
   stack (fst (step (pizza_bot\<lparr>stack := []\<rparr>) ''pay'')) = [] \<and>
   map Result (log (fst (step (pizza_bot\<lparr>stack := []\<rparr>) ''pay''))) = [Stuck]"
proof -
  have h1: "no_absent_key (pizza_bot\<lparr>stack := []\<rparr>)"
    using pizza_no_absent_key by (simp add: no_absent_key_def)
  have h2: "stack (pizza_bot\<lparr>stack := []\<rparr>) = []" by simp
  have h3: "''pay'' \<in> input_alphabet (pizza_bot\<lparr>stack := []\<rparr>)" by (simp add: pizza_defs)
  have h4: "log (pizza_bot\<lparr>stack := []\<rparr>) = []" by (simp add: pizza_defs)
  from step_on_empty_stack[OF h1 h2, of "''pay''"] h1 h2 h3 h4 show ?thesis by auto
qed

text \<open>
  With an empty stack and a symbol outside the input alphabet, the step of the pizza
  simulator takes the branch that logs Halted, not the one that logs Stuck.
\<close>

theorem empty_stack_invalid_symbol_counterexample:
  "no_absent_key (pizza_bot\<lparr>stack := []\<rparr>) \<and> stack (pizza_bot\<lparr>stack := []\<rparr>) = [] \<and>
   map Result (log (fst (step (pizza_bot\<lparr>stack := []\<rparr>) ''anchovies''))) = [Halted]"
proof -
  have "no_absent_key (pizza_bot\<lparr>stack := []\<rparr>)"
    using pizza_no_absent_key by (simp add: no_absent_key_def)
  moreover have "map Result (log (fst (step (pizza_bot\<lparr>stack := []\<rparr>) ''anchovies''))) = [Halted]"
    by (simp add: step_def pizza_defs)
  ultimately show ?thesis by simp
qed

subsection \<open>The pizza-ordering scenario\<close>

text \<open>
  Claim C7. On \<^verbatim>\<open>order pizza toppings done done pay\<close> the pizza simulator returns
  Accepted; after the step on \<^verbatim>\<open>order\<close> the stack is O, Z0 from the top; the log has
  seven entries, the Start entry and one per symbol.
\<close>

theorem pizza_accepts_simple_order:
  "snd (run pizza_bot [''order'', ''pizza'', ''toppings'', ''done'', ''done'', ''pay''])
     = Inr ''Accepted'' \<and>
   snd (step (run_start pizza_bot) ''order'') = Inr True \<and>
   stack (fst (step (run_start pizza_bot) ''order'')) = [''O'', ''Z0''] \<and>
   stack (fst (run pizza_bot [''order''])) = [''O'', ''Z0''] \<and>
   Stack (log (fst (run pizza_bot [''order'', ''pizza'', ''toppings'', ''done'', ''done'', ''pay''])) ! 1)
     = ''[O | Z0]'' \<and>
   length (log (fst (run pizza_bot [''order'', ''pizza'', ''toppings'', ''done'', ''done'', ''pay'']))) = 7 \<and>
   map Result (log (fst (run pizza_bot [''order'', ''pizza'', ''toppings'', ''done'', ''done'', ''pay''])))
     = [Start, Success, Success, Success, Success, Success, Success] \<and>
   map Input (log (fst (run pizza_bot [''order'', ''pizza'', ''toppings'', ''done'', ''done'', ''pay''])))
     = [Start_input, Symbol_input ''order'', Symbol_input ''pizza'', Symbol_input ''toppings'',
        Symbol_input ''done'', Symbol_input ''done'', Symbol_input ''pay'']"
  by (simp add: run_def step_def peek_def pop0_def push_reversed_append pizza_defs)


lemmas pizza_run_defs = run_def step_def peek_def pop0_def push_reversed_append pizza_defs

lemma run_accepted_applies_all:
  "snd (run p sequence) = Inr ''Accepted'' \<Longrightarrow>
   applies_all (run_start p) sequence (fst (run p sequence))"
  unfolding run_def by (simp add: run_loop_accepted)

subsection \<open>The verdict of run\<close>

lemma absent_key_pda_raises:
  "run absent_key_pda [''a'', ''a''] =
     (\<lparr>states = {''q''}, input_alphabet = {''a''}, stack_alphabet = {''Z''},
       transitions = map_of [((''q'', ''a'', Some ''Z''), (''q'', [])),
                             ((''q'', ''a'', None), (''q'', []))],
       start_state = ''q'', start_stack_symbol = ''Z'', accept_states = {''q''},
       current_state = ''q'', stack = [],
       log = [\<lparr>Input = Start_input, Action = Initial_configuration, New_State = ''q'',
                Stack = ''[Z]'', Result = Start\<rparr>,
              \<lparr>Input = Symbol_input ''a'', Action = Pop_Push ''Z'' [], New_State = ''q'',
                Stack = ''[] (Empty)'', Result = Success\<rparr>]\<rparr>,
      Inl IndexError)"
  by (simp add: run_def step_def peek_def pop0_def absent_key_pda_def reset_def run_start_def
        log_append_def get_stack_visualization_def Let_def)

lemma run_accepted_iff:
  "snd (run p sequence) = Inr ''Accepted'' \<longleftrightarrow>
   (\<exists>q. applies_all (run_start p) sequence q \<and> current_state q \<in> accept_states p)"
proof
  assume acc: "snd (run p sequence) = Inr ''Accepted''"
  let ?q = "fst (run p sequence)"
  from acc have "applies_all (run_start p) sequence ?q \<and> current_state ?q \<in> accept_states ?q"
    unfolding run_def by (rule run_loop_accepted)
  moreover have "accept_states ?q = accept_states p"
    using run_same_definition[of p sequence] by (simp add: same_definition_def)
  ultimately show "\<exists>q. applies_all (run_start p) sequence q \<and> current_state q \<in> accept_states p"
    by auto
next
  assume "\<exists>q. applies_all (run_start p) sequence q \<and> current_state q \<in> accept_states p"
  then obtain q where q: "applies_all (run_start p) sequence q" "current_state q \<in> accept_states p"
    by blast
  from q(1) have "same_definition (run_start p) q" by (rule applies_all_same_definition)
  with run_start_same_definition[of p] have "accept_states q = accept_states p"
    by (simp add: same_definition_def)
  moreover from run_loop_applies_all[OF q(1), of "[]"] have "run p sequence = run_loop q []"
    by (simp add: run_def)
  ultimately show "snd (run p sequence) = Inr ''Accepted''" using q(2) by simp
qed

lemma run_verdict:
  assumes "no_absent_key p"
  shows "snd (run p sequence) = Inr ''Accepted'' \<or> snd (run p sequence) = Inr ''Rejected''"
proof -
  from run_start_same_definition assms have "no_absent_key (run_start p)"
    by (rule no_absent_key_cong)
  then show ?thesis unfolding run_def by (rule run_loop_verdict)
qed

text \<open>
  Claim C1, as the code has it. For every simulator and every input sequence,
  \<^verbatim>\<open>run\<close> returns Accepted exactly when every symbol of the sequence is processed by a
  step that applies a transition and the state after the last one is an accept state. When
  no key of the transition dictionary has \<^verbatim>\<open>None\<close> as its stack-top component,
  \<^verbatim>\<open>run\<close> returns Rejected in every other case.
\<close>

theorem run_acceptance_law:
  "(snd (run p sequence) = Inr ''Accepted'' \<longleftrightarrow>
      (\<exists>q. applies_all (run_start p) sequence q \<and> current_state q \<in> accept_states p)) \<and>
   (no_absent_key p \<longrightarrow>
      \<not> (\<exists>q. applies_all (run_start p) sequence q \<and> current_state q \<in> accept_states p) \<longrightarrow>
      snd (run p sequence) = Inr ''Rejected'')"
  using run_accepted_iff[of p sequence] run_verdict[of p sequence] by blast

theorem run_acceptance_law_witness:
  "no_absent_key pizza_bot \<and>
   snd (run pizza_bot [''order'', ''pay'']) = Inr ''Accepted'' \<and>
   (\<exists>q. applies_all (run_start pizza_bot) [''order'', ''pay''] q \<and>
        current_state q \<in> accept_states pizza_bot) \<and>
   \<not> (\<exists>q. applies_all (run_start pizza_bot) [''order'', ''pizza''] q \<and>
          current_state q \<in> accept_states pizza_bot) \<and>
   snd (run pizza_bot [''order'', ''pizza'']) = Inr ''Rejected''"
proof -
  have a: "snd (run pizza_bot [''order'', ''pay'']) = Inr ''Accepted''"
    by (simp add: run_def step_def peek_def pop0_def push_reversed_append pizza_defs)
  have r: "snd (run pizza_bot [''order'', ''pizza'']) = Inr ''Rejected''"
    by (simp add: run_def step_def peek_def pop0_def push_reversed_append pizza_defs)
  from run_acceptance_law[of pizza_bot "[''order'', ''pay'']"]
       run_acceptance_law[of pizza_bot "[''order'', ''pizza'']"] a r pizza_no_absent_key
  show ?thesis by simp
qed

text \<open>
  On a simulator with a transition keyed on the empty stack, \<^verbatim>\<open>run\<close> on \<^verbatim>\<open>a a\<close>
  returns neither verdict: the second step finds the key and pops the empty stack.
\<close>

theorem run_raises_counterexample:
  "snd (run absent_key_pda [''a'', ''a'']) \<noteq> Inr ''Accepted'' \<and>
   snd (run absent_key_pda [''a'', ''a'']) \<noteq> Inr ''Rejected'' \<and>
   snd (run absent_key_pda [''a'', ''a'']) = Inl IndexError"
  by (simp add: absent_key_pda_raises)

subsection \<open>The length of the trace\<close>

lemma run_all_applied:
  assumes "applies_all (run_start p) sequence q"
  shows "run p sequence =
           (q, Inr (if current_state q \<in> accept_states p then ''Accepted'' else ''Rejected''))"
    and "map Input (log q) = Start_input # map Symbol_input sequence"
proof -
  from assms have "same_definition (run_start p) q" by (rule applies_all_same_definition)
  with run_start_same_definition[of p] have "accept_states q = accept_states p"
    by (simp add: same_definition_def)
  with run_loop_applies_all[OF assms, of "[]"]
  show "run p sequence =
           (q, Inr (if current_state q \<in> accept_states p then ''Accepted'' else ''Rejected''))"
    by (simp add: run_def)
  from applies_all_log[OF assms] show "map Input (log q) = Start_input # map Symbol_input sequence"
    by (simp add: run_start_log)
qed

lemma run_halted:
  assumes "applies_all (run_start p) pre q" and "snd (step q symbol) = Inr False"
  shows "run p (pre @ symbol # post) = (fst (step q symbol), Inr ''Rejected'')"
    and "map Input (log (fst (step q symbol))) = Start_input # map Symbol_input (pre @ [symbol])"
proof -
  from run_loop_applies_all[OF assms(1), of "symbol # post"] run_loop_halts[OF assms(2), of post]
  show "run p (pre @ symbol # post) = (fst (step q symbol), Inr ''Rejected'')"
    by (simp add: run_def)
  from step_returns_appends[OF assms(2)] applies_all_log[OF assms(1)]
  show "map Input (log (fst (step q symbol))) = Start_input # map Symbol_input (pre @ [symbol])"
    by (auto simp: run_start_log)
qed

lemma run_loop_cases:
  assumes "no_absent_key p"
  shows "(\<exists>q. applies_all p xs q) \<or>
         (\<exists>pre symbol post q. xs = pre @ symbol # post \<and> applies_all p pre q \<and>
            snd (step q symbol) = Inr False)"
  using assms
proof (induction xs arbitrary: p)
  case Nil
  show ?case by (auto intro: applies_none)
next
  case (Cons a xs)
  from step_no_raise[OF Cons.prems, of a] obtain b where b: "snd (step p a) = Inr b" by blast
  show ?case
  proof (cases b)
    case False
    with b have "a # xs = [] @ a # xs \<and> applies_all p [] p \<and> snd (step p a) = Inr False"
      by (simp add: applies_none)
    then show ?thesis by blast
  next
    case True
    let ?p' = "fst (step p a)"
    from b True have st: "step p a = (?p', Inr True)" by (simp add: prod_eq_iff)
    from step_same_definition[of p a] Cons.prems have "no_absent_key ?p'"
      by (rule no_absent_key_cong)
    from Cons.IH[OF this] show ?thesis
    proof
      assume "\<exists>q. applies_all ?p' xs q"
      then obtain q where "applies_all ?p' xs q" by blast
      with st have "applies_all p (a # xs) q" by (rule applies_more)
      then show ?thesis by blast
    next
      assume "\<exists>pre symbol post q. xs = pre @ symbol # post \<and> applies_all ?p' pre q \<and>
            snd (step q symbol) = Inr False"
      then obtain pre symbol post q where h: "xs = pre @ symbol # post" "applies_all ?p' pre q"
          "snd (step q symbol) = Inr False" by blast
      from st h(2) have "applies_all p (a # pre) q" by (rule applies_more)
      with h(1,3) have "a # xs = (a # pre) @ symbol # post \<and> applies_all p (a # pre) q \<and>
            snd (step q symbol) = Inr False" by simp
      then show ?thesis by blast
    qed
  qed
qed

lemma run_cases:
  assumes "no_absent_key p"
  shows "(\<exists>q. applies_all (run_start p) sequence q) \<or>
         (\<exists>pre symbol post q. sequence = pre @ symbol # post \<and>
            applies_all (run_start p) pre q \<and> snd (step q symbol) = Inr False)"
proof -
  from run_start_same_definition assms have "no_absent_key (run_start p)"
    by (rule no_absent_key_cong)
  then show ?thesis by (rule run_loop_cases)
qed

text \<open>
  Claim C4, as the code has it. Every call of \<^verbatim>\<open>step\<close> that returns adds exactly one
  log entry, and every call returns when no key of the dictionary has \<^verbatim>\<open>None\<close> as its
  stack-top component. \<^verbatim>\<open>run\<close> starts the log with exactly one Start entry. When the
  symbols \<open>pre\<close> are all applied and the step on the next symbol returns \<^verbatim>\<open>False\<close>,
  \<^verbatim>\<open>run\<close> stops there with Rejected, whatever symbols \<open>post\<close> follow: the log holds
  the Start entry and one entry for each of the \<open>length pre + 1\<close> symbols that were
  given to \<^verbatim>\<open>step\<close>. When all symbols of the sequence are applied, the log holds the
  Start entry and one entry per symbol. With such a dictionary every run is of one of
  these two kinds.
\<close>

theorem trace_accounting:
  "(snd (step p symbol) = Inr b \<longrightarrow>
      (\<exists>e. log (fst (step p symbol)) = log p @ [e] \<and> Result e \<noteq> Start)) \<and>
   (no_absent_key p \<longrightarrow> (\<exists>b'. snd (step p symbol) = Inr b')) \<and>
   (\<exists>e. log (run_start p) = [e] \<and> Result e = Start) \<and>
   (no_absent_key p \<longrightarrow>
      (\<exists>q. applies_all (run_start p) sequence q) \<or>
      (\<exists>pre symbol post q. sequence = pre @ symbol # post \<and>
         applies_all (run_start p) pre q \<and> snd (step q symbol) = Inr False)) \<and>
   (applies_all (run_start p) pre q \<and> snd (step q symbol) = Inr False \<longrightarrow>
      run p (pre @ symbol # post) = (fst (step q symbol), Inr ''Rejected'') \<and>
      map Input (log (fst (run p (pre @ symbol # post))))
        = Start_input # map Symbol_input (pre @ [symbol]) \<and>
      length (log (fst (run p (pre @ symbol # post)))) = (length pre + 1) + 1) \<and>
   (applies_all (run_start p) sequence q' \<longrightarrow>
      fst (run p sequence) = q' \<and>
      map Input (log (fst (run p sequence))) = Start_input # map Symbol_input sequence \<and>
      length (log (fst (run p sequence))) = length sequence + 1)"
proof (intro conjI impI)
  assume "snd (step p symbol) = Inr b"
  from step_returns_appends[OF this]
  show "\<exists>e. log (fst (step p symbol)) = log p @ [e] \<and> Result e \<noteq> Start" by blast
next
  assume "no_absent_key p"
  then show "\<exists>b'. snd (step p symbol) = Inr b'" by (rule step_no_raise)
next
  show "\<exists>e. log (run_start p) = [e] \<and> Result e = Start" by (simp add: run_start_log)
next
  assume "no_absent_key p"
  then show "(\<exists>q. applies_all (run_start p) sequence q) \<or>
      (\<exists>pre symbol post q. sequence = pre @ symbol # post \<and>
         applies_all (run_start p) pre q \<and> snd (step q symbol) = Inr False)"
    by (rule run_cases)
next
  assume h: "applies_all (run_start p) pre q \<and> snd (step q symbol) = Inr False"
  then have h1: "applies_all (run_start p) pre q" and h2: "snd (step q symbol) = Inr False"
    by simp_all
  have r: "run p (pre @ symbol # post) = (fst (step q symbol), Inr ''Rejected'')"
    using h1 h2 by (rule run_halted(1))
  have i: "map Input (log (fst (step q symbol))) = Start_input # map Symbol_input (pre @ [symbol])"
    using h1 h2 by (rule run_halted(2))
  show "run p (pre @ symbol # post) = (fst (step q symbol), Inr ''Rejected'')" by (rule r)
  from r i show m: "map Input (log (fst (run p (pre @ symbol # post))))
        = Start_input # map Symbol_input (pre @ [symbol])" by simp
  from arg_cong[OF m, of length]
  show "length (log (fst (run p (pre @ symbol # post)))) = (length pre + 1) + 1" by simp
next
  assume h: "applies_all (run_start p) sequence q'"
  from run_all_applied[OF h] show "fst (run p sequence) = q'" by simp
  from run_all_applied[OF h]
  show m: "map Input (log (fst (run p sequence))) = Start_input # map Symbol_input sequence"
    by simp
  from arg_cong[OF m, of length]
  show "length (log (fst (run p sequence))) = length sequence + 1" by simp
qed

theorem trace_accounting_witness:
  "snd (step pizza_bot ''done'') = Inr False \<and>
   length (log (fst (step pizza_bot ''done''))) = length (log pizza_bot) + 1 \<and>
   no_absent_key pizza_bot \<and>
   applies_all (run_start pizza_bot) [''order''] (fst (run pizza_bot [''order''])) \<and>
   snd (step (fst (run pizza_bot [''order''])) ''done'') = Inr False \<and>
   snd (run pizza_bot [''order'', ''done'', ''pay'']) = Inr ''Rejected'' \<and>
   length (log (fst (run pizza_bot [''order'', ''done'', ''pay'']))) = 3 \<and>
   applies_all (run_start pizza_bot) [''order'', ''pay''] (fst (run pizza_bot [''order'', ''pay''])) \<and>
   length (log (fst (run pizza_bot [''order'', ''pay'']))) = 3"
proof -
  have s1: "snd (step pizza_bot ''done'') = Inr False" by (simp add: pizza_run_defs)
  have a1: "applies_all (run_start pizza_bot) [''order''] (fst (run pizza_bot [''order'']))"
    by (rule applies_more[OF _ applies_none]) (simp add: pizza_run_defs)
  have s2: "snd (step (fst (run pizza_bot [''order''])) ''done'') = Inr False"
    by (simp add: pizza_run_defs)
  have "snd (run pizza_bot [''order'', ''pay'']) = Inr ''Accepted''"
    by (simp add: pizza_run_defs)
  then have a2: "applies_all (run_start pizza_bot) [''order'', ''pay'']
                   (fst (run pizza_bot [''order'', ''pay'']))"
    by (rule run_accepted_applies_all)
  from trace_accounting[where p = pizza_bot and symbol = "''done''" and b = False
         and pre = "[''order'']" and q = "fst (run pizza_bot [''order''])" and post = "[''pay'']"
         and sequence = "[''order'', ''pay'']" and q' = "fst (run pizza_bot [''order'', ''pay''])"]
       s1 a1 s2 a2 pizza_no_absent_key
  show ?thesis by auto
qed

text \<open>
  On the simulator with a transition keyed on the empty stack, the second step on
  \<^verbatim>\<open>a\<close> raises and leaves the log as it was: after two calls of \<^verbatim>\<open>step\<close> the log of
  the run has two entries, not three.
\<close>

theorem step_raise_logs_nothing_counterexample:
  "snd (step (fst (run absent_key_pda [''a''])) ''a'') = Inl IndexError \<and>
   log (fst (step (fst (run absent_key_pda [''a''])) ''a'')) = log (fst (run absent_key_pda [''a''])) \<and>
   length (log (fst (run absent_key_pda [''a'', ''a'']))) = 2"
  by (simp add: run_def step_def peek_def pop0_def absent_key_pda_def reset_def run_start_def
        log_append_def get_stack_visualization_def Let_def)

subsection \<open>Runs depend on the definition only\<close>

text \<open>
  Claim C8. Two simulators built from the same definition give the same result on the same
  sequence, whatever their current state, stack and log: the same verdict (or exception) and
  the same simulator afterwards, log included. So does a simulator that has run before, on
  the same sequence or on another one.
\<close>

theorem run_depends_on_definition_only:
  assumes "same_definition p q"
  shows "run p sequence = run q sequence \<and>
         run (fst (run q earlier)) sequence = run p sequence \<and>
         run (fst (run p sequence)) sequence = run p sequence"
proof -
  have eq: "\<And>a b. same_definition a b \<Longrightarrow> run a sequence = run b sequence"
    by (simp add: run_def run_start_cong)
  from run_same_definition[of q earlier] assms
  have "same_definition (fst (run q earlier)) p"
    by (blast intro: same_definition_trans same_definition_sym)
  moreover have "same_definition (fst (run p sequence)) p"
    using run_same_definition[of p sequence] by (rule same_definition_sym)
  ultimately show ?thesis using eq assms by blast
qed

theorem run_depends_on_definition_only_witness:
  "same_definition pizza_bot (pizza_bot\<lparr>current_state := ''q_done'', stack := [], log := []\<rparr>) \<and>
   run pizza_bot [''order'', ''pay'']
     = run (pizza_bot\<lparr>current_state := ''q_done'', stack := [], log := []\<rparr>) [''order'', ''pay''] \<and>
   run (fst (run (pizza_bot\<lparr>current_state := ''q_done'', stack := [], log := []\<rparr>) [''pizza'']))
       [''order'', ''pay'']
     = run pizza_bot [''order'', ''pay''] \<and>
   run (fst (run pizza_bot [''order'', ''pay''])) [''order'', ''pay'']
     = run pizza_bot [''order'', ''pay'']"
proof -
  have h: "same_definition pizza_bot
             (pizza_bot\<lparr>current_state := ''q_done'', stack := [], log := []\<rparr>)"
    by (simp add: same_definition_def)
  from run_depends_on_definition_only[OF h, of "[''order'', ''pay'']" "[''pizza'']"] h
  show ?thesis by blast
qed

subsection \<open>The configurations of the pizza simulator\<close>

lemma pizza_transitions_cases:
  assumes "pizza_transitions (st, a, Some tp) = Some (ns, push)"
  shows "(st, a, tp, ns, push) \<in>
     {(''q_start'', ''order'', ''Z0'', ''q_ordering'', [''O'', ''Z0'']),
      (''q_ordering'', ''pizza'', ''O'', ''q_ordering'', [''P'', ''O'']),
      (''q_ordering'', ''toppings'', ''P'', ''q_ordering'', [''T'', ''P'']),
      (''q_ordering'', ''done'', ''T'', ''q_ordering'', []),
      (''q_ordering'', ''done'', ''P'', ''q_ordering'', []),
      (''q_ordering'', ''pay'', ''O'', ''q_done'', [])}"
  using assms by (simp add: pizza_transitions_def split: if_splits)

lemma pizza_bot_transitions: "same_definition pizza_bot q \<Longrightarrow> transitions q = pizza_transitions"
  by (simp add: same_definition_def pizza_bot_def reset_def)

lemma pizza_step_configuration:
  assumes sd: "same_definition pizza_bot q"
    and cfg: "(current_state q, stack q) \<in> pizza_configurations"
  shows "(current_state (fst (step q symbol)), stack (fst (step q symbol))) \<in> pizza_configurations"
proof (cases rule: step_cases[of symbol q])
  case invalid
  with cfg show ?thesis by (simp add: step_invalid)
next
  case stuck
  with cfg show ?thesis by (simp add: step_stuck)
next
  case (applied tp rest next_state push_symbols)
  from applied(3) pizza_bot_transitions[OF sd]
  have "pizza_transitions (current_state q, symbol, Some tp) = Some (next_state, push_symbols)"
    by simp
  from pizza_transitions_cases[OF this] cfg applied(2)
  have "(next_state, push_symbols @ rest) \<in> pizza_configurations"
    by (auto simp: pizza_configurations_def)
  then show ?thesis by (simp add: step_applied[OF applied])
next
  case (raises v)
  with cfg show ?thesis by (simp add: pizza_configurations_def)
qed

lemma pizza_reachable_configuration:
  "reachable pizza_bot q \<Longrightarrow>
   same_definition pizza_bot q \<and> (current_state q, stack q) \<in> pizza_configurations"
proof (induction rule: reachable.induct)
  case reach_start
  show ?case
    by (simp add: run_start_same_definition run_start_config pizza_configurations_def
          pizza_bot_def reset_def)
next
  case (reach_step q symbol q' r)
  from reach_step.hyps(2) have q': "q' = fst (step q symbol)" by simp
  from reach_step.IH step_same_definition[of q symbol] have "same_definition pizza_bot q'"
    unfolding q' by (blast intro: same_definition_trans)
  moreover from reach_step.IH have "(current_state q', stack q') \<in> pizza_configurations"
    unfolding q' by (simp add: pizza_step_configuration)
  ultimately show ?case by simp
qed

lemma run_loop_reachable: "reachable r p \<Longrightarrow> reachable r (fst (run_loop p xs))"
proof (induction xs arbitrary: p)
  case Nil
  then show ?case by simp
next
  case (Cons symbol rest)
  obtain p' res where st: "step p symbol = (p', res)" by (cases "step p symbol")
  from Cons.prems st have r': "reachable r p'" by (rule reach_step)
  show ?case
  proof (cases res)
    case (Inl e)
    with st r' show ?thesis by simp
  next
    case (Inr ok)
    with st r' Cons.IH[OF r'] show ?thesis by (cases ok) simp_all
  qed
qed

lemma run_reachable: "reachable p (fst (run p sequence))"
  unfolding run_def by (rule run_loop_reachable) (rule reach_start)

text \<open>
  Claim C6. At every point of a run of the pizza simulator (when the loop starts and after
  every call of \<^verbatim>\<open>step\<close>) the stack is not empty: Z0 is its last element and occurs
  once. Every transition that pops Z0 pushes O, Z0.
\<close>

theorem pizza_stack_never_empty:
  assumes "reachable pizza_bot q"
  shows "stack q \<noteq> [] \<and> length (stack q) \<noteq> 0 \<and>
         last (stack q) = ''Z0'' \<and> count_list (stack q) ''Z0'' = 1 \<and>
         (\<forall>st a ns push. transitions q (st, a, Some ''Z0'') = Some (ns, push)
                          \<longrightarrow> push = [''O'', ''Z0''])"
proof -
  from pizza_reachable_configuration[OF assms]
  have sd: "same_definition pizza_bot q" and cfg: "(current_state q, stack q) \<in> pizza_configurations"
    by simp_all
  from cfg have "stack q \<noteq> [] \<and> length (stack q) \<noteq> 0 \<and>
         last (stack q) = ''Z0'' \<and> count_list (stack q) ''Z0'' = 1"
    by (auto simp: pizza_configurations_def)
  moreover have "\<forall>st a ns push. transitions q (st, a, Some ''Z0'') = Some (ns, push)
                          \<longrightarrow> push = [''O'', ''Z0'']"
  proof (intro allI impI)
    fix st a ns push
    assume "transitions q (st, a, Some ''Z0'') = Some (ns, push)"
    then have "pizza_transitions (st, a, Some ''Z0'') = Some (ns, push)"
      by (simp add: pizza_bot_transitions[OF sd])
    from pizza_transitions_cases[OF this] show "push = [''O'', ''Z0'']" by simp
  qed
  ultimately show ?thesis by simp
qed

theorem pizza_stack_never_empty_witness:
  "reachable pizza_bot (fst (run pizza_bot [''order'', ''pizza'', ''toppings''])) \<and>
   stack (fst (run pizza_bot [''order'', ''pizza'', ''toppings''])) = [''T'', ''P'', ''O'', ''Z0''] \<and>
   stack (fst (run pizza_bot [''order'', ''pizza'', ''toppings''])) \<noteq> [] \<and>
   last (stack (fst (run pizza_bot [''order'', ''pizza'', ''toppings'']))) = ''Z0''"
proof -
  have h: "reachable pizza_bot (fst (run pizza_bot [''order'', ''pizza'', ''toppings'']))"
    by (rule run_reachable)
  have "stack (fst (run pizza_bot [''order'', ''pizza'', ''toppings''])) = [''T'', ''P'', ''O'', ''Z0'']"
    by (simp add: pizza_run_defs)
  with pizza_stack_never_empty[OF h] h show ?thesis by simp
qed

subsection \<open>Extensions of accepted sequences\<close>

text \<open>
  Claim C9, as the code has it. When the pizza simulator accepts \<open>s\<close>, it rejects
  \<open>s @ t\<close> for every non-empty \<open>t\<close>: the step on the first symbol of \<open>t\<close> halts in
  state \<^verbatim>\<open>q_done\<close>, with the stack unchanged and one more log entry. The entry is
  tagged Stuck when that symbol is in the input alphabet, since no transition leaves
  \<^verbatim>\<open>q_done\<close>, and Halted when it is not.
\<close>

theorem pizza_extension_rejected:
  assumes "snd (run pizza_bot s) = Inr ''Accepted''" and "t \<noteq> []"
  shows "snd (run pizza_bot (s @ t)) = Inr ''Rejected'' \<and>
         current_state (fst (run pizza_bot (s @ t))) = ''q_done'' \<and>
         stack (fst (run pizza_bot (s @ t))) = stack (fst (run pizza_bot s)) \<and>
         map Input (log (fst (run pizza_bot (s @ t))))
           = map Input (log (fst (run pizza_bot s))) @ [Symbol_input (hd t)] \<and>
         Result (last (log (fst (run pizza_bot (s @ t))))) =
           (if hd t \<in> input_alphabet pizza_bot then Stuck else Halted)"
proof -
  let ?q = "fst (run pizza_bot s)"
  from assms(2) obtain x t' where t: "t = x # t'" by (cases t) auto
  from assms(1) have app: "applies_all (run_start pizza_bot) s ?q"
    by (rule run_accepted_applies_all)
  have "reachable pizza_bot ?q" by (rule run_reachable)
  from pizza_reachable_configuration[OF this]
  have sd: "same_definition pizza_bot ?q" and cfg: "(current_state ?q, stack ?q) \<in> pizza_configurations"
    by simp_all
  from assms(1) have "current_state ?q \<in> accept_states ?q"
    unfolding run_def by (simp add: run_loop_accepted)
  with sd have at_done: "current_state ?q = ''q_done''"
    by (simp add: same_definition_def pizza_bot_def reset_def)
  from at_done cfg have stk: "stack ?q = [''Z0'']" by (auto simp: pizza_configurations_def)
  have "transitions ?q (current_state ?q, x, peek (stack ?q)) = None"
    by (simp add: pizza_bot_transitions[OF sd] at_done stk peek_def pizza_transitions_def)
  then have halt: "x \<notin> input_alphabet ?q \<or>
                   transitions ?q (current_state ?q, x, peek (stack ?q)) = None" by simp
  have f: "snd (step ?q x) = Inr False" "current_state (fst (step ?q x)) = current_state ?q"
      "stack (fst (step ?q x)) = stack ?q"
      "Result (last (log (fst (step ?q x)))) =
         (if x \<in> input_alphabet pizza_bot then Stuck else Halted)"
      "map Input (log (fst (step ?q x))) = map Input (log ?q) @ [Symbol_input x]"
  proof -
    show "snd (step ?q x) = Inr False"
      by (cases "x \<in> input_alphabet ?q") (simp_all add: step_invalid step_stuck halt[simplified])
    from step_returns_appends[OF this]
    show "map Input (log (fst (step ?q x))) = map Input (log ?q) @ [Symbol_input x]" by auto
    show "current_state (fst (step ?q x)) = current_state ?q"
      by (cases "x \<in> input_alphabet ?q") (simp_all add: step_invalid step_stuck halt[simplified])
    show "stack (fst (step ?q x)) = stack ?q"
      by (cases "x \<in> input_alphabet ?q") (simp_all add: step_invalid step_stuck halt[simplified])
    from sd have ia: "input_alphabet ?q = input_alphabet pizza_bot"
      by (simp add: same_definition_def)
    show "Result (last (log (fst (step ?q x)))) =
            (if x \<in> input_alphabet pizza_bot then Stuck else Halted)"
      unfolding ia[symmetric]
      by (cases "x \<in> input_alphabet ?q") (simp_all add: step_invalid step_stuck halt[simplified])
  qed
  from run_loop_applies_all[OF app, of "x # t'"] run_loop_halts[OF f(1), of t']
  have "run pizza_bot (s @ t) = (fst (step ?q x), Inr ''Rejected'')"
    by (simp add: run_def t)
  with f at_done t show ?thesis by simp
qed

theorem pizza_extension_rejected_witness:
  "snd (run pizza_bot [''order'', ''pay'']) = Inr ''Accepted'' \<and> [''pay''] \<noteq> [] \<and>
   snd (run pizza_bot ([''order'', ''pay''] @ [''pay''])) = Inr ''Rejected'' \<and>
   Result (last (log (fst (run pizza_bot ([''order'', ''pay''] @ [''pay'']))))) = Stuck"
proof -
  have h1: "snd (run pizza_bot [''order'', ''pay'']) = Inr ''Accepted''"
    by (simp add: pizza_run_defs)
  have h2: "[''pay''] \<noteq> []" by simp
  have h3: "''pay'' \<in> input_alphabet pizza_bot" by (simp add: pizza_defs)
  from pizza_extension_rejected[OF h1 h2] h1 h3 show ?thesis by simp
qed

text \<open>
  After the accepted sequence \<^verbatim>\<open>order pay\<close>, a next symbol outside the input alphabet
  is rejected by the branch that logs Halted, not by the one that logs Stuck.
\<close>

theorem extension_invalid_symbol_counterexample:
  "snd (run pizza_bot [''order'', ''pay'']) = Inr ''Accepted'' \<and>
   snd (run pizza_bot ([''order'', ''pay''] @ [''anchovies''])) = Inr ''Rejected'' \<and>
   map Result (log (fst (run pizza_bot ([''order'', ''pay''] @ [''anchovies'']))))
     = [Start, Success, Success, Halted]"
  by (simp add: pizza_run_defs)

end
